theory Spec2Isabelle
  imports Complex_Main "HOL-Library.Sublist" "HOL-Library.AList"
begin

section \<open>Python strings\<close>

text \<open>
  Strings are character lists. The source works on Python \<open>str\<close> values; the model
  covers ASCII text, where a character is one byte. Exceptions of the source are values
  of \<open>py_error\<close>.
\<close>

datatype py_error = ValueError | HTTP_404 | HTTP_500

text \<open>\<open>sep in text\<close>: the substring test. The empty string occurs in every string.\<close>

fun py_in :: "string \<Rightarrow> string \<Rightarrow> bool" where
  "py_in sep [] = (sep = [])"
| "py_in sep (c # cs) = (prefix sep (c # cs) \<or> py_in sep cs)"

text \<open>
  \<open>text.split(sep)\<close> for a non-empty separator: a left-to-right scan that cuts at every
  non-overlapping occurrence of \<open>sep\<close>; \<open>cur\<close> is the piece being collected.
\<close>

function split_scan :: "string \<Rightarrow> string \<Rightarrow> string \<Rightarrow> string list" where
  "split_scan sep cur s =
     (if s = [] then [cur]
      else if sep \<noteq> [] \<and> prefix sep s then cur # split_scan sep [] (drop (length sep) s)
      else split_scan sep (cur @ [hd s]) (tl s))"
  by pat_completeness auto
termination
  by (relation "measure (\<lambda>(sep, cur, s). length s)") auto

declare split_scan.simps [simp del]

text \<open>\<open>text.split(sep)\<close> raises \<open>ValueError: empty separator\<close> when \<open>sep\<close> is empty.\<close>

definition py_split :: "string \<Rightarrow> string \<Rightarrow> py_error + string list" where
  "py_split text sep = (if sep = [] then Inl ValueError else Inr (split_scan sep [] text))"

text \<open>\<open>sep.join(parts)\<close>.\<close>

fun py_join :: "string \<Rightarrow> string list \<Rightarrow> string" where
  "py_join sep [] = []"
| "py_join sep [x] = x"
| "py_join sep (x # y # ys) = x @ sep @ py_join sep (y # ys)"

text \<open>
  A slice \<open>xs[start:end]\<close> with Python's treatment of negative and out-of-range bounds.
\<close>

definition py_clip :: "nat \<Rightarrow> int \<Rightarrow> nat" where
  "py_clip n i = (if i < 0 then nat (max 0 (int n + i)) else min (nat i) n)"

definition py_slice :: "'a list \<Rightarrow> int \<Rightarrow> int \<Rightarrow> 'a list" where
  "py_slice xs start end =
     (let lo = py_clip (length xs) start; hi = py_clip (length xs) end
      in take (hi - lo) (drop lo xs))"

text \<open>\<open>xs[start:]\<close>.\<close>

definition py_slice_from :: "'a list \<Rightarrow> int \<Rightarrow> 'a list" where
  "py_slice_from xs start = drop (py_clip (length xs) start) xs"

text \<open>
  Whitespace as \<open>str.strip\<close>, \<open>str.split()\<close> and the pattern \<open>\s\<close> see it on ASCII text:
  the codes 9 to 13, 28 to 31 and the space. Decimal digits as \<open>\d\<close> sees them on ASCII.
\<close>

definition is_space :: "char \<Rightarrow> bool" where
  "is_space c = (let n = (of_char c :: nat) in (9 \<le> n \<and> n \<le> 13) \<or> (28 \<le> n \<and> n \<le> 32))"

definition is_digit :: "char \<Rightarrow> bool" where
  "is_digit c = (let n = (of_char c :: nat) in 48 \<le> n \<and> n \<le> 57)"

text \<open>\<open>s.strip()\<close>.\<close>

definition strip :: "string \<Rightarrow> string" where
  "strip s = rev (dropWhile is_space (rev (dropWhile is_space s)))"

text \<open>\<open>s.lower()\<close> on ASCII text: the letters A to Z move to a to z.\<close>

definition lower_char :: "char \<Rightarrow> char" where
  "lower_char c =
     (case map_of (zip ''ABCDEFGHIJKLMNOPQRSTUVWXYZ'' ''abcdefghijklmnopqrstuvwxyz'') c of
        Some l \<Rightarrow> l
      | None \<Rightarrow> c)"

definition lower :: "string \<Rightarrow> string" where
  "lower s = map lower_char s"

text \<open>\<open>int(s)\<close> on a non-empty run of ASCII digits.\<close>

definition py_int :: "string \<Rightarrow> int" where
  "py_int s = foldl (\<lambda>acc c. 10 * acc + (int (of_char c) - 48)) 0 s"

text \<open>\<open>s.split()\<close>: the maximal runs of non-whitespace characters.\<close>

fun split_whitespace :: "string \<Rightarrow> string \<Rightarrow> string list" where
  "split_whitespace cur [] = (if cur = [] then [] else [cur])"
| "split_whitespace cur (c # cs) =
     (if is_space c then (if cur = [] then split_whitespace [] cs else cur # split_whitespace [] cs)
      else split_whitespace (cur @ [c]) cs)"

text \<open>\<open>max(xs, default=d)\<close>.\<close>

definition py_max_default :: "int list \<Rightarrow> int \<Rightarrow> int" where
  "py_max_default xs d = (case xs of [] \<Rightarrow> d | y # ys \<Rightarrow> fold max ys y)"

section \<open>utils/chunking.py: RecursiveCharacterTextSplitter\<close>

text \<open>
  The splitter object. The tiktoken encoding (\<open>self.encoding\<close>) is a library outside the
  repository: its \<open>encode\<close> and \<open>decode\<close> are fields of the record, over any token type.
\<close>

record 'tok splitter =
  chunk_size :: int
  chunk_overlap :: int
  encode :: "string \<Rightarrow> 'tok list"
  decode :: "'tok list \<Rightarrow> string"
  separators :: "string list"

text \<open>
  \<open>__init__\<close> stores its arguments and the separator list. It performs no check on
  \<open>chunk_size\<close> and \<open>chunk_overlap\<close>, so it has no error branch.
\<close>

definition splitter_init ::
  "int \<Rightarrow> int \<Rightarrow> (string \<Rightarrow> 'tok list) \<Rightarrow> ('tok list \<Rightarrow> string) \<Rightarrow> py_error + 'tok splitter" where
  "splitter_init csize coverlap enc dec =
     Inr \<lparr>chunk_size = csize, chunk_overlap = coverlap, encode = enc, decode = dec,
          separators = [''\<newline>\<newline>'', ''\<newline>'', ''. '', '' '', '''']\<rparr>"

definition create_text_splitter ::
  "int \<Rightarrow> int \<Rightarrow> (string \<Rightarrow> 'tok list) \<Rightarrow> ('tok list \<Rightarrow> string) \<Rightarrow> py_error + 'tok splitter" where
  "create_text_splitter csize coverlap enc dec = splitter_init csize coverlap enc dec"

definition count_tokens :: "'tok splitter \<Rightarrow> string \<Rightarrow> int" where
  "count_tokens sp text = int (length (encode sp text))"

text \<open>\<open>_get_overlap_text\<close>: the last \<open>chunk_overlap\<close> tokens of the joined pieces, decoded.\<close>

definition get_overlap_text :: "'tok splitter \<Rightarrow> string list \<Rightarrow> string \<Rightarrow> string" where
  "get_overlap_text sp chunks separator =
     (if chunks = [] \<or> chunk_overlap sp \<le> 0 then []
      else decode sp (py_slice_from (encode sp (py_join separator chunks)) (- chunk_overlap sp)))"

text \<open>
  \<open>_split_by_tokens\<close>: the \<open>while start < len(tokens)\<close> loop. Nothing in the source
  bounds \<open>chunk_overlap\<close>, so the loop need not advance; not returning is \<open>None\<close>.
\<close>

partial_function (option) split_by_tokens_loop ::
  "'tok splitter \<Rightarrow> 'tok list \<Rightarrow> int \<Rightarrow> string list \<Rightarrow> string list option" where
  "split_by_tokens_loop sp tokens start chunks =
     (if start < int (length tokens) then
        (let end = min (start + chunk_size sp) (int (length tokens));
             chunk_text = decode sp (py_slice tokens start end)
         in split_by_tokens_loop sp tokens
              (if end < int (length tokens) then end - chunk_overlap sp else end)
              (chunks @ [chunk_text]))
      else Some chunks)"

definition split_by_tokens :: "'tok splitter \<Rightarrow> string \<Rightarrow> string list option" where
  "split_by_tokens sp text = split_by_tokens_loop sp (encode sp text) 0 []"

text \<open>
  \<open>split_text\<close>, the \<open>for separator in self.separators\<close> loop inside it
  (\<open>try_separators\<close>) and the \<open>for split in splits\<close> loop of \<open>_merge_splits\<close>
  (\<open>merge_loop\<close>, with the loop's variables \<open>chunks\<close>, \<open>current_chunk\<close> and
  \<open>current_tokens\<close> as arguments) call each other; the call
  \<open>self._merge_splits(splits, separator)\<close> is the loop started with no chunk, no current
  chunk and no tokens. A result is \<open>None\<close> when the call does not return,
  \<open>Some (Inl e)\<close> when it raises \<open>e\<close>, \<open>Some (Inr chunks)\<close> when it returns.
\<close>

function split_text :: "'tok splitter \<Rightarrow> string \<Rightarrow> (py_error + string list) option"
  and try_separators ::
    "'tok splitter \<Rightarrow> string \<Rightarrow> string list \<Rightarrow> (py_error + string list) option"
  and merge_loop ::
    "'tok splitter \<Rightarrow> string \<Rightarrow> string list \<Rightarrow> string list \<Rightarrow> string list \<Rightarrow> int
       \<Rightarrow> (py_error + string list) option"
where
  "split_text sp text =
     (if text = [] then Some (Inr [])
      else if count_tokens sp text \<le> chunk_size sp then Some (Inr [text])
      else try_separators sp text (separators sp))"
| "try_separators sp text [] =
     (case split_by_tokens sp text of None \<Rightarrow> None | Some chunks \<Rightarrow> Some (Inr chunks))"
| "try_separators sp text (separator # rest) =
     (if py_in separator text then
        (case py_split text separator of
           Inl e \<Rightarrow> Some (Inl e)
         | Inr splits \<Rightarrow>
             (case merge_loop sp separator splits [] [] 0 of
                None \<Rightarrow> None
              | Some (Inl e) \<Rightarrow> Some (Inl e)
              | Some (Inr chunks) \<Rightarrow>
                  if chunks \<noteq> [] then Some (Inr chunks) else try_separators sp text rest))
      else try_separators sp text rest)"
| "merge_loop sp separator [] chunks current_chunk current_tokens =
     Some (Inr (if current_chunk \<noteq> [] then chunks @ [py_join separator current_chunk]
                else chunks))"
| "merge_loop sp separator (split # rest) chunks current_chunk current_tokens =
     (if split = [] then merge_loop sp separator rest chunks current_chunk current_tokens
      else if count_tokens sp split > chunk_size sp then
        (case split_text sp split of
           None \<Rightarrow> None
         | Some (Inl e) \<Rightarrow> Some (Inl e)
         | Some (Inr sub_chunks) \<Rightarrow>
             if current_chunk \<noteq> []
             then merge_loop sp separator rest
                    ((chunks @ [py_join separator current_chunk]) @ sub_chunks) [] 0
             else merge_loop sp separator rest (chunks @ sub_chunks)
                    current_chunk current_tokens)
      else
        (let new_tokens = current_tokens + count_tokens sp split
               + (if separator \<noteq> [] \<and> current_chunk \<noteq> [] then count_tokens sp separator else 0)
         in if new_tokens \<le> chunk_size sp
            then merge_loop sp separator rest chunks (current_chunk @ [split]) new_tokens
            else
              (let overlap_text = get_overlap_text sp current_chunk separator;
                   next_chunk = (if overlap_text \<noteq> [] then [overlap_text, split] else [split])
               in merge_loop sp separator rest
                    (if current_chunk \<noteq> [] then chunks @ [py_join separator current_chunk]
                     else chunks)
                    next_chunk (count_tokens sp (py_join separator next_chunk)))))"
  by pat_completeness auto

text \<open>
  Every call terminates: a recursive \<open>split_text\<close> is on a piece of a text that was cut
  at a non-empty separator occurring in it, hence on a strictly shorter text.
\<close>

termination
proof -
  have sum_le: "sum_list (map length (split_scan sep cur s)) \<le> length cur + length s"
    for sep cur s
  proof (induction sep cur s rule: split_scan.induct)
    case (1 sep cur s)
    show ?case
    proof (cases "s = []")
      case True
      then show ?thesis by (simp add: split_scan.simps)
    next
      case False
      show ?thesis
      proof (cases "sep \<noteq> [] \<and> prefix sep s")
        case True
        with False 1(1) show ?thesis by (subst split_scan.simps) simp
      next
        case no_cut: False
        with False 1(2)
        have "sum_list (map length (split_scan sep (cur @ [hd s]) (tl s)))
                \<le> length (cur @ [hd s]) + length (tl s)"
          by blast
        with False no_cut show ?thesis by (subst split_scan.simps) (cases s; auto)
      qed
    qed
  qed
  have sum_less: "sum_list (map length (split_scan sep cur s)) < length cur + length s"
    if "sep \<noteq> []" "py_in sep s" for sep cur s
    using that
  proof (induction sep cur s rule: split_scan.induct)
    case (1 sep cur s)
    from 1(3,4) have ne: "s \<noteq> []" by (cases s) auto
    show ?case
    proof (cases "prefix sep s")
      case True
      have "sum_list (map length (split_scan sep [] (drop (length sep) s)))
              \<le> length s - length sep"
        using sum_le[of sep "[]" "drop (length sep) s"] by simp
      moreover have "length sep \<le> length s" using True by (simp add: prefix_length_le)
      moreover have "length sep > 0" using 1(3) by simp
      moreover have "length s > 0" using ne by simp
      ultimately have "sum_list (map length (split_scan sep [] (drop (length sep) s))) < length s"
        by arith
      then show ?thesis using ne True 1(3) by (subst split_scan.simps) simp
    next
      case False
      then have "py_in sep (tl s)" using 1(4) ne by (cases s) auto
      with 1(2)[OF ne _ 1(3)] False
      have "sum_list (map length (split_scan sep (cur @ [hd s]) (tl s)))
              < length (cur @ [hd s]) + length (tl s)"
        by blast
      with False ne show ?thesis by (subst split_scan.simps) (cases s; auto)
    qed
  qed
  show ?thesis
    apply (relation "inv_image (less_than <*lex*> less_than <*lex*> less_than)
       (\<lambda>x. case x of
          Inl (sp, text) \<Rightarrow> (length text, 2::nat, 0::nat)
        | Inr (Inl (sp, text, seps)) \<Rightarrow> (length text, 1, length seps)
        | Inr (Inr (sp, sep, splits, chunks, cur, ct)) \<Rightarrow>
            (sum_list (map length splits), 3, length splits))")
           apply (auto simp: py_split_def split: if_splits)
    using sum_less[where cur="[]"] apply force
    done
qed

text \<open>\<open>_merge_splits\<close> as a function of its own.\<close>

definition merge_splits ::
  "'tok splitter \<Rightarrow> string list \<Rightarrow> string \<Rightarrow> (py_error + string list) option" where
  "merge_splits sp splits separator = merge_loop sp separator splits [] [] 0"

text \<open>
  Constructing a splitter and splitting one text with it, as \<open>IndexingService\<close> does:
  \<open>create_text_splitter(chunk_size, chunk_overlap)\<close>, then \<open>split_text(page_text)\<close>.
\<close>

definition construct_and_split ::
  "int \<Rightarrow> int \<Rightarrow> (string \<Rightarrow> 'tok list) \<Rightarrow> ('tok list \<Rightarrow> string) \<Rightarrow> string
     \<Rightarrow> (py_error + string list) option" where
  "construct_and_split csize coverlap enc dec text =
     (case create_text_splitter csize coverlap enc dec of
        Inl e \<Rightarrow> Some (Inl e)
      | Inr sp \<Rightarrow> split_text sp text)"

section \<open>models/citation.py and agents/section\_generator.py: citation extraction\<close>

record citation =
  document_id :: string
  document_title :: string
  page_number :: int
  chunk_text :: string
  chunk_id :: "string option"
  relevance_score :: "real option"

text \<open>
  The pattern \<open>\[([^\]]+),\s*p\.\s*(\d+)\]\<close>. Between the opening bracket and the closing
  one the pattern admits no \<open>]\<close>, so a match that starts at a \<open>[\<close> ends at the first
  \<open>]\<close> after it; what follows the comma of the pattern admits no comma, so that comma
  is the last one of the bracketed text. \<open>match_marker_body\<close> matches the bracketed text
  and returns the two groups.
\<close>

definition match_marker_body :: "string \<Rightarrow> (string \<times> string) option" where
  "match_marker_body body =
     (let rev_tail = takeWhile (\<lambda>c. c \<noteq> CHR '','') (rev body);
          rev_head = dropWhile (\<lambda>c. c \<noteq> CHR '','') (rev body)
      in case rev_head of
           [] \<Rightarrow> None
         | _ # rev_title \<Rightarrow>
             if rev_title = [] then None
             else (case dropWhile is_space (rev rev_tail) of
                     p # dot # after_p \<Rightarrow>
                       if p = CHR ''p'' \<and> dot = CHR ''.'' then
                         (let digits = dropWhile is_space after_p
                          in if digits \<noteq> [] \<and> list_all is_digit digits
                             then Some (rev rev_title, digits) else None)
                       else None
                   | _ \<Rightarrow> None))"

text \<open>
  \<open>re.findall(citation_pattern, text)\<close>: the non-overlapping matches from left to right,
  each as the pair of its groups; after a match the scan goes on behind its \<open>]\<close>.
\<close>

function findall_citation_pattern :: "string \<Rightarrow> (string \<times> string) list" where
  "findall_citation_pattern [] = []"
| "findall_citation_pattern (c # cs) =
     (if c = CHR ''['' then
        (case dropWhile (\<lambda>x. x \<noteq> CHR '']'') cs of
           [] \<Rightarrow> findall_citation_pattern cs
         | _ # behind \<Rightarrow>
             (case match_marker_body (takeWhile (\<lambda>x. x \<noteq> CHR '']'') cs) of
                Some groups \<Rightarrow> groups # findall_citation_pattern behind
              | None \<Rightarrow> findall_citation_pattern cs))
      else findall_citation_pattern cs)"
  by pat_completeness auto
termination
proof (relation "measure length")
  fix c :: char and cs x behind
  assume "dropWhile (\<lambda>x. x \<noteq> CHR '']'') cs = x # behind"
  then have "length (x # behind) \<le> length cs"
    using length_dropWhile_le[of "\<lambda>x. x \<noteq> CHR '']''" cs] by simp
  then show "(behind, c # cs) \<in> measure length" by simp
qed auto

text \<open>
  The inner \<open>for citation in available_citations\<close> loop for one marker; it returns
  \<open>(exact_match, fallback_match)\<close>. An exact match leaves the loop (\<open>break\<close>).
\<close>

fun scan_available ::
  "citation list \<Rightarrow> string \<Rightarrow> int \<Rightarrow> citation option \<Rightarrow> citation option \<times> citation option" where
  "scan_available [] doc_title page_num fallback_match = (None, fallback_match)"
| "scan_available (c # rest) doc_title page_num fallback_match =
     (let title_matches = (lower (document_title c) = lower doc_title);
          page_matches = (page_number c = page_num)
      in if title_matches \<and> page_matches then (Some c, fallback_match)
         else if title_matches \<and> fallback_match = None
              then scan_available rest doc_title page_num (Some c)
              else scan_available rest doc_title page_num fallback_match)"

text \<open>\<open>citation_to_use = exact_match or fallback_match\<close>.\<close>

definition citation_to_use :: "citation list \<Rightarrow> string \<Rightarrow> int \<Rightarrow> citation option" where
  "citation_to_use available doc_title page_num =
     (case scan_available available doc_title page_num None of
        (Some exact, _) \<Rightarrow> Some exact
      | (None, fallback_match) \<Rightarrow> fallback_match)"

text \<open>The \<open>for doc_title, page_str in matches\<close> loop, with \<open>used_citations\<close> as argument.\<close>

fun collect_citations ::
  "(string \<times> string) list \<Rightarrow> citation list \<Rightarrow> citation list \<Rightarrow> citation list" where
  "collect_citations [] available used_citations = used_citations"
| "collect_citations ((doc_title, page_str) # matches) available used_citations =
     (case citation_to_use available doc_title (py_int page_str) of
        Some c \<Rightarrow>
          if c \<notin> set used_citations
          then collect_citations matches available (used_citations @ [c])
          else collect_citations matches available used_citations
      | None \<Rightarrow> collect_citations matches available used_citations)"

definition extract_citations_from_text :: "string \<Rightarrow> citation list \<Rightarrow> citation list" where
  "extract_citations_from_text text available_citations =
     collect_citations (findall_citation_pattern text) available_citations []"

text \<open>
  For the proofs: a citation is the first of its kind in the available list when no
  earlier citation has the same page and the same title up to the case of its letters.
\<close>

definition first_of_its_kind :: "citation list \<Rightarrow> citation \<Rightarrow> bool" where
  "first_of_its_kind available c =
     (find (\<lambda>d. lower (document_title d) = lower (document_title c)
                \<and> page_number d = page_number c) available = Some c)"

section \<open>utils/paragraph\_lock.py\<close>

text \<open>
  \<open>split_into_paragraphs\<close>. The separator of \<open>text.split('\n\n')\<close> is not empty, so the
  call cannot raise.
\<close>

definition split_into_paragraphs :: "string \<Rightarrow> string list" where
  "split_into_paragraphs text =
     (if text = [] then []
      else map strip (filter (\<lambda>p. strip p \<noteq> [])
             (split_scan ''\<newline>\<newline>'' [] text)))"

text \<open>
  The dictionary \<open>{idx: text for idx, text in locked_paragraphs}\<close> as an association list
  in insertion order: a later pair with the same index replaces the text of the earlier.
\<close>

definition locked_dict_of :: "(int \<times> string) list \<Rightarrow> (int \<times> string) list" where
  "locked_dict_of locked_paragraphs =
     fold (\<lambda>(idx, text) d. AList.update idx text d) locked_paragraphs []"

text \<open>The \<open>for i in range(max_idx + 1)\<close> loop, with \<open>merged_paragraphs\<close> as argument.\<close>

fun merge_positions ::
  "(int \<times> string) list \<Rightarrow> string list \<Rightarrow> int list \<Rightarrow> string list \<Rightarrow> string list" where
  "merge_positions locked_dict new_paragraphs [] merged_paragraphs = merged_paragraphs"
| "merge_positions locked_dict new_paragraphs (i # positions) merged_paragraphs =
     (case map_of locked_dict i of
        Some text \<Rightarrow>
          merge_positions locked_dict new_paragraphs positions (merged_paragraphs @ [text])
      | None \<Rightarrow>
          if i < int (length new_paragraphs)
          then merge_positions locked_dict new_paragraphs positions
                 (merged_paragraphs @ [new_paragraphs ! nat i])
          else merge_positions locked_dict new_paragraphs positions merged_paragraphs)"

definition merge_paragraphs_with_locks :: "string \<Rightarrow> (int \<times> string) list \<Rightarrow> string" where
  "merge_paragraphs_with_locks new_text locked_paragraphs =
     (if locked_paragraphs = [] then new_text
      else
        (let new_paragraphs = split_into_paragraphs new_text;
             locked_dict = locked_dict_of locked_paragraphs;
             max_idx = max (int (length new_paragraphs) - 1)
                           (py_max_default (map fst locked_dict) (- 1))
         in py_join ''\<newline>\<newline>''
              (merge_positions locked_dict new_paragraphs [0..max_idx] [])))"

definition count_words :: "string \<Rightarrow> nat" where
  "count_words text =
     (if text = [] then 0
      else length (filter (\<lambda>w. w \<noteq> []) (split_whitespace [] (strip text))))"

text \<open>
  The merge of the specification, written from its words: with \<open>N\<close> the larger of the
  number of new paragraphs and one more than the largest locked index (the number of new
  paragraphs when nothing is locked), position \<open>i\<close> below \<open>N\<close> emits the locked text when
  \<open>i\<close> is locked (the text of the last lock at \<open>i\<close>), the new paragraph \<open>i\<close> when there
  is one, and nothing otherwise; the emitted paragraphs are joined by a blank line.
\<close>

definition spec_emit :: "string list \<Rightarrow> (int \<times> string) list \<Rightarrow> int \<Rightarrow> string list" where
  "spec_emit new_paragraphs locked i =
     (case filter (\<lambda>(j, t). j = i) locked of
        [] \<Rightarrow> (if i < int (length new_paragraphs) then [new_paragraphs ! nat i] else [])
      | l # ls \<Rightarrow> [snd (last (l # ls))])"

definition spec_merge :: "string \<Rightarrow> (int \<times> string) list \<Rightarrow> string" where
  "spec_merge new_text locked =
     (let new_paragraphs = split_into_paragraphs new_text;
          N = (if locked = [] then int (length new_paragraphs)
               else max (int (length new_paragraphs)) (1 + Max (set (map fst locked))))
      in py_join ''\<newline>\<newline>'' (concat (map (spec_emit new_paragraphs locked) [0..N - 1])))"

section \<open>models/section.py: GeneratedSection\<close>

record locked_paragraph =
  lp_index :: int
  lp_text :: string
  lp_locked_at :: "string option"

record generated_section =
  section_id :: string
  session_id :: string
  name :: string
  ai_generated_text :: string
  word_count :: int
  citations :: "citation list"
  locked_paragraphs :: "locked_paragraph list"
  generated_at :: "string option"
  regeneration_count :: int

text \<open>
  \<open>GeneratedSection.merge_with_locked_paragraphs\<close>: its own copy of the merge, over the
  section's \<open>LockedParagraph\<close> objects.
\<close>

definition merge_with_locked_paragraphs :: "generated_section \<Rightarrow> string \<Rightarrow> string" where
  "merge_with_locked_paragraphs self new_text =
     (if locked_paragraphs self = [] then new_text
      else
        (let new_paragraphs = map strip (filter (\<lambda>p. strip p \<noteq> [])
                                (split_scan ''\<newline>\<newline>'' [] new_text));
             locked_dict = fold (\<lambda>lp d. AList.update (lp_index lp) (lp_text lp) d)
                                (locked_paragraphs self) []
         in py_join ''\<newline>\<newline>''
              (merge_positions locked_dict new_paragraphs
                 [0..max (int (length new_paragraphs))
                         (py_max_default (map fst locked_dict) (- 1) + 1) - 1] [])))"

section \<open>api/routes/sections.py: update\_section\<close>

text \<open>
  The entry of \<open>_generated_sections\<close> for one section, the request and the response.
  \<open>CitationResponse\<close> requires a \<open>relevance_score\<close>: building it from a citation without
  one fails validation, which the route reports as status 500.
\<close>

record section_data =
  sd_section_id :: string
  sd_section_name :: string
  sd_text :: string
  sd_word_count :: nat
  sd_citations :: "citation list"
  sd_warning :: "string option"
  sd_locked_paragraphs :: "int list"
  sd_locked_paragraphs_data :: "(int \<times> string) list"
  sd_generated_at :: string

record update_section_request =
  req_text :: string
  locked_paragraph_indices :: "int list"

record citation_response =
  cr_document_id :: string
  cr_document_title :: string
  cr_page_number :: int
  cr_chunk_text :: string
  cr_relevance_score :: real

record generated_section_response =
  resp_section_id :: string
  resp_section_name :: string
  resp_text :: string
  resp_word_count :: nat
  resp_citations :: "citation_response list"
  resp_warning :: "string option"
  resp_locked_paragraphs :: "int list"
  resp_generated_at :: string

type_synonym section_store = "string \<rightharpoonup> (string \<rightharpoonup> section_data)"

fun citation_responses :: "citation list \<Rightarrow> py_error + citation_response list" where
  "citation_responses [] = Inr []"
| "citation_responses (c # cs) =
     (case relevance_score c of
        None \<Rightarrow> Inl HTTP_500
      | Some score \<Rightarrow>
          (case citation_responses cs of
             Inl e \<Rightarrow> Inl e
           | Inr rs \<Rightarrow>
               Inr (\<lparr>cr_document_id = document_id c, cr_document_title = document_title c,
                      cr_page_number = page_number c, cr_chunk_text = chunk_text c,
                      cr_relevance_score = score\<rparr> # rs)))"

text \<open>
  \<open>update_section\<close> returns the store as the call leaves it and either the response or
  the status it raises. The section's entry is changed before the response is built.
\<close>

definition update_section ::
  "section_store \<Rightarrow> string \<Rightarrow> string \<Rightarrow> update_section_request
     \<Rightarrow> section_store \<times> (py_error + generated_section_response)" where
  "update_section generated_sections sid section_name request =
     (case generated_sections sid of
        None \<Rightarrow> (generated_sections, Inl HTTP_404)
      | Some sections \<Rightarrow>
          (case sections section_name of
             None \<Rightarrow> (generated_sections, Inl HTTP_404)
           | Some section_data \<Rightarrow>
               (let paragraphs = split_into_paragraphs (req_text request);
                    valid_indices = filter (\<lambda>idx. 0 \<le> idx \<and> idx < int (length paragraphs))
                                      (locked_paragraph_indices request);
                    locked_paragraphs_data = map (\<lambda>idx. (idx, paragraphs ! nat idx)) valid_indices;
                    section_data' = section_data\<lparr>sd_text := req_text request,
                                       sd_locked_paragraphs := valid_indices,
                                       sd_locked_paragraphs_data := locked_paragraphs_data,
                                       sd_word_count := count_words (req_text request)\<rparr>;
                    store' = generated_sections(sid \<mapsto> sections(section_name \<mapsto> section_data'))
                in (store',
                    case citation_responses (sd_citations section_data') of
                      Inl e \<Rightarrow> Inl e
                    | Inr rs \<Rightarrow>
                        Inr \<lparr>resp_section_id = sd_section_id section_data',
                             resp_section_name = sd_section_name section_data',
                             resp_text = sd_text section_data',
                             resp_word_count = sd_word_count section_data',
                             resp_citations = rs,
                             resp_warning = sd_warning section_data',
                             resp_locked_paragraphs = valid_indices,
                             resp_generated_at = sd_generated_at section_data'\<rparr>))))"

section \<open>Properties of the text splitter\<close>

lemma py_in_empty_separator: "py_in [] text"
  by (cases "text") simp_all

lemma create_text_splitter_fields:
  "create_text_splitter csize coverlap enc dec =
     Inr \<lparr>chunk_size = csize, chunk_overlap = coverlap, encode = enc, decode = dec,
          separators = [''\<newline>\<newline>'', ''\<newline>'', ''. '', '' '', '''']\<rparr>"
  by (simp add: create_text_splitter_def splitter_init_def)

text \<open>
  The hard split by itself returns whenever the overlap is below the chunk size: each
  round of its loop moves \<open>start\<close> forward.
\<close>

lemma split_by_tokens_loop_terminates:
  assumes "chunk_overlap sp < chunk_size sp"
  shows "\<exists>result. split_by_tokens_loop sp tokens start chunks = Some result"
proof (induction "nat (int (length tokens) - start)" arbitrary: start chunks rule: less_induct)
  case less
  show ?case
  proof (cases "start < int (length tokens)")
    case False
    then show ?thesis by (subst split_by_tokens_loop.simps) simp
  next
    case True
    let ?end = "min (start + chunk_size sp) (int (length tokens))"
    let ?next = "if ?end < int (length tokens) then ?end - chunk_overlap sp else ?end"
    have "nat (int (length tokens) - ?next) < nat (int (length tokens) - start)"
      using True assms by (auto simp: min_def)
    from less[OF this]
    obtain result where
      "split_by_tokens_loop sp tokens ?next (chunks @ [decode sp (py_slice tokens start ?end)])
         = Some result"
      by blast
    then show ?thesis using True by (subst split_by_tokens_loop.simps) (simp add: Let_def)
  qed
qed

text \<open>
  With the empty string among the separators, every call of \<open>split_text\<close> ends: it
  returns chunks or it raises. The loop over the separators stops at the empty string at
  the latest, so the hard split behind the loop does not run.
\<close>

lemma split_text_returns_or_raises:
  "([] \<in> set (separators sp) \<longrightarrow> split_text sp s \<noteq> None)"
  "([] \<in> set (separators sp) \<and> [] \<in> set seps \<longrightarrow> try_separators sp s seps \<noteq> None)"
  "([] \<in> set (separators sp) \<longrightarrow> merge_loop sp separator splits chunks current_chunk current_tokens \<noteq> None)"
proof (induction sp s and sp s seps and sp separator splits chunks current_chunk current_tokens
    rule: split_text_try_separators_merge_loop.induct)
  case (1 sp s)
  then show ?case by simp
next
  case (2 sp s)
  then show ?case by simp
next
  case (3 sp s separator rest)
  show ?case
  proof (cases "separator = []")
    case True
    then show ?thesis by (simp add: py_in_empty_separator py_split_def)
  next
    case False
    then show ?thesis using 3
      by (auto simp: py_split_def split: option.splits sum.splits)
  qed
next
  case (4 sp separator chunks current_chunk current_tokens)
  then show ?case by simp
next
  case (5 sp separator split rest chunks current_chunk current_tokens)
  then show ?case
    by (auto simp: Let_def split: option.splits sum.splits)
qed

lemma construct_and_split_terminates: "construct_and_split cs ov enc dec s \<noteq> None"
  unfolding construct_and_split_def create_text_splitter_fields
  by (simp del: split_text.simps add: split_text_returns_or_raises(1)[rule_format])

text \<open>
  C1. The claim: for every text and every configuration with
  \<open>0 \<le> overlap_tokens < chunk_size_tokens\<close>, \<open>split_text\<close> returns a list of chunks and
  raises nothing, also on a text over the budget that holds no separator. The code does
  otherwise: the separator list ends with the empty string, which occurs in every text,
  and splitting at the empty string raises \<open>ValueError\<close>. So on every non-empty text over
  the budget in which none of the four natural separators occurs, \<open>split_text\<close> raises,
  whatever the tokenizer and the overlap; the hard split behind the loop is not reached.
\<close>

theorem split_text_unsegmentable_raises:
  assumes "text \<noteq> []"
    and "cs < int (length (enc text))"
    and "\<not> py_in ''\<newline>\<newline>'' text" and "\<not> py_in ''\<newline>'' text"
    and "\<not> py_in ''. '' text" and "\<not> py_in '' '' text"
  shows "construct_and_split cs ov enc dec text = Some (Inl ValueError)"
  using assms
  by (simp add: construct_and_split_def create_text_splitter_fields count_tokens_def
      py_in_empty_separator py_split_def)

theorem split_text_unsegmentable_raises_witness:
  "''abcd'' \<noteq> [] \<and> (3::int) < int (length (id ''abcd''))
   \<and> \<not> py_in ''\<newline>\<newline>'' ''abcd'' \<and> \<not> py_in ''\<newline>'' ''abcd''
   \<and> \<not> py_in ''. '' ''abcd'' \<and> \<not> py_in '' '' ''abcd''
   \<and> construct_and_split 3 1 id id ''abcd'' = Some (Inl ValueError)"
  using split_text_unsegmentable_raises [of "''abcd''" 3 id 1 id]
  by simp

text \<open>
  C2. The claim: a text over the budget without natural separators comes back as the
  hard-split windows; with \<open>chunk_size_tokens = 10\<close>, \<open>overlap_tokens = 3\<close> and 25 tokens
  the windows start at the offsets 0, 7, 14 and 21. With one token per character and the
  25 letters a to y, \<open>_split_by_tokens\<close> computes exactly these windows, but \<open>split_text\<close>
  raises \<open>ValueError\<close> before it calls \<open>_split_by_tokens\<close>.
\<close>

theorem split_text_hard_split_example:
  "construct_and_split 10 3 id id ''abcdefghijklmnopqrstuvwxy''
     = Some (Inl ValueError)
   \<and> (case create_text_splitter 10 3 id id of
         Inl e \<Rightarrow> None
       | Inr sp \<Rightarrow> split_by_tokens sp ''abcdefghijklmnopqrstuvwxy'')
     = Some [''abcdefghij'', ''hijklmnopq'', ''opqrstuvwx'', ''vwxy'']"
  by (simp add: construct_and_split_def create_text_splitter_fields count_tokens_def
      py_split_def split_by_tokens_def split_by_tokens_loop.simps py_slice_def py_clip_def)

text \<open>
  C3. The claim: constructing the splitter with \<open>overlap_tokens \<ge> chunk_size_tokens\<close>
  raises a configuration error, so that such a configuration never reaches the splitting.
  The constructor checks nothing: with chunk size 5 and overlap 10 it returns a splitter,
  and \<open>split_text\<close> runs with it.
\<close>

theorem create_text_splitter_overlap_counterexample:
  "\<not> isl (create_text_splitter 5 10 (id :: string \<Rightarrow> string) id)
   \<and> construct_and_split 5 10 id id ''aaaa bbbb cccc''
       = Some (Inr [''aaaa'', ''aaaa bbbb'', ''aaaa bbbb cccc''])"
  by (simp add: construct_and_split_def create_text_splitter_fields count_tokens_def
      py_split_def split_scan.simps get_overlap_text_def py_slice_from_def py_clip_def)

text \<open>
  C3, as amended: constructing the splitter raises no configuration error for any chunk
  size and overlap, \<open>overlap_tokens \<ge> chunk_size_tokens\<close> included; it returns a splitter
  that holds both values unchanged.
\<close>

theorem create_text_splitter_accepts_any_configuration:
  "\<not> isl (create_text_splitter csize coverlap enc dec)
   \<and> chunk_size (projr (create_text_splitter csize coverlap enc dec)) = csize
   \<and> chunk_overlap (projr (create_text_splitter csize coverlap enc dec)) = coverlap"
  by (simp add: create_text_splitter_fields)

text \<open>
  C4. The claim: every chunk that does not come from the hard split has at most
  \<open>chunk_size_tokens\<close> tokens, also a chunk seeded with overlap text. The code starts a
  new chunk as overlap text plus the next piece without comparing the sum against the
  budget. With one token per character, chunk size 5 and overlap 2, the second chunk of
  \<open>aaaa bbbb cccc\<close> is \<open>aa bbbb\<close>, which has 7 tokens.
\<close>

theorem merge_splits_overlap_exceeds_budget:
  "construct_and_split 5 2 id id ''aaaa bbbb cccc''
     = Some (Inr [''aaaa'', ''aa bbbb'', ''bb cccc''])
   \<and> (case create_text_splitter 5 2 id id of
         Inl e \<Rightarrow> False
       | Inr sp \<Rightarrow> count_tokens sp ''aa bbbb'' = 7 \<and> chunk_size sp = 5)"
  by (simp add: construct_and_split_def create_text_splitter_fields count_tokens_def
      py_split_def split_scan.simps get_overlap_text_def py_slice_from_def py_clip_def)

text \<open>
  C9. A text within the budget comes back as the single chunk \<open>[text]\<close>, and the empty
  text as the empty list of chunks, whatever the budget.
\<close>

theorem split_text_within_budget:
  "construct_and_split cs ov enc dec [] = Some (Inr [])
   \<and> (text \<noteq> [] \<and> int (length (enc text)) \<le> cs
        \<longrightarrow> construct_and_split cs ov enc dec text = Some (Inr [text]))"
  by (simp add: construct_and_split_def create_text_splitter_fields count_tokens_def)

theorem split_text_within_budget_witness:
  "''abc'' \<noteq> [] \<and> int (length (id ''abc'')) \<le> 3
   \<and> construct_and_split 3 1 id id ''abc'' = Some (Inr [''abc''])
   \<and> construct_and_split 3 1 id id [] = Some (Inr [])"
  using split_text_within_budget [of 3 1 id id "''abc''"]
  by simp

section \<open>Properties of the citation extraction\<close>

lemma scan_available_exact:
  "fst (scan_available available doc_title page_num fb) =
     find (\<lambda>c. lower (document_title c) = lower doc_title \<and> page_number c = page_num) available"
  by (induction available arbitrary: fb) (simp_all add: Let_def)

lemma scan_available_fallback:
  "find (\<lambda>c. lower (document_title c) = lower doc_title \<and> page_number c = page_num) available = None
   \<Longrightarrow> snd (scan_available available doc_title page_num fb) =
     (case fb of Some f \<Rightarrow> Some f
      | None \<Rightarrow> find (\<lambda>c. lower (document_title c) = lower doc_title) available)"
proof (induction available arbitrary: fb)
  case Nil
  then show ?case by (simp split: option.splits)
next
  case (Cons c rest)
  then show ?case by (cases fb) (auto simp: Let_def split: if_splits)
qed

lemma citation_to_use_find:
  "citation_to_use available doc_title page_num =
     (case find (\<lambda>c. lower (document_title c) = lower doc_title \<and> page_number c = page_num) available of
        Some c \<Rightarrow> Some c
      | None \<Rightarrow> find (\<lambda>c. lower (document_title c) = lower doc_title) available)"
proof -
  let ?exact = "find (\<lambda>c. lower (document_title c) = lower doc_title \<and> page_number c = page_num) available"
  obtain fb where r: "scan_available available doc_title page_num None = (?exact, fb)"
    using scan_available_exact[of available doc_title page_num None]
    by (cases "scan_available available doc_title page_num None") simp
  show ?thesis
  proof (cases ?exact)
    case None
    then have "fb = find (\<lambda>c. lower (document_title c) = lower doc_title) available"
      using scan_available_fallback[of doc_title page_num available None] r by simp
    with None r show ?thesis by (simp add: citation_to_use_def)
  next
    case (Some c)
    with r show ?thesis by (simp add: citation_to_use_def)
  qed
qed

lemma find_Some_stronger:
  "find P xs = Some c \<Longrightarrow> Q c \<Longrightarrow> (\<And>x. Q x \<Longrightarrow> P x) \<Longrightarrow> find Q xs = Some c"
  by (induction xs) (auto split: if_splits)

lemma find_Some_holds: "find P xs = Some c \<Longrightarrow> P c"
  by (induction xs) (auto split: if_splits)

lemma citation_to_use_first_of_its_kind:
  assumes "citation_to_use available doc_title page_num = Some c"
  shows "first_of_its_kind available c"
proof (cases "find (\<lambda>c. lower (document_title c) = lower doc_title \<and> page_number c = page_num) available")
  case None
  with assms have f: "find (\<lambda>c. lower (document_title c) = lower doc_title) available = Some c"
    by (simp add: citation_to_use_find)
  from find_Some_holds[OF f] have t: "lower (document_title c) = lower doc_title" .
  show ?thesis unfolding first_of_its_kind_def
    by (rule find_Some_stronger[OF f]) (simp_all add: t)
next
  case (Some d)
  with assms have f: "find (\<lambda>c. lower (document_title c) = lower doc_title \<and> page_number c = page_num) available = Some c"
    by (simp add: citation_to_use_find)
  from find_Some_holds[OF f] have t: "lower (document_title c) = lower doc_title \<and> page_number c = page_num" .
  show ?thesis unfolding first_of_its_kind_def
    using f t by simp
qed

lemma first_of_its_kind_unique:
  "first_of_its_kind available c \<Longrightarrow> first_of_its_kind available d \<Longrightarrow>
   document_title c = document_title d \<Longrightarrow> page_number c = page_number d \<Longrightarrow> c = d"
  by (simp add: first_of_its_kind_def)

lemma collect_citations_invariant:
  "\<forall>c \<in> set used. first_of_its_kind available c \<Longrightarrow> distinct used \<Longrightarrow>
   (\<forall>c \<in> set (collect_citations matches available used). first_of_its_kind available c)
   \<and> distinct (collect_citations matches available used)"
proof (induction matches arbitrary: used)
  case Nil
  then show ?case by simp
next
  case (Cons m matches)
  obtain doc_title page_str where m: "m = (doc_title, page_str)" by (cases m)
  show ?case
  proof (cases "citation_to_use available doc_title (py_int page_str)")
    case None
    with Cons m show ?thesis by simp
  next
    case (Some c)
    show ?thesis
    proof (cases "c \<in> set used")
      case True
      with Cons m Some show ?thesis by simp
    next
      case False
      have "\<forall>c \<in> set (used @ [c]). first_of_its_kind available c"
        using Cons.prems(1) citation_to_use_first_of_its_kind[OF Some] by simp
      moreover have "distinct (used @ [c])" using Cons.prems(2) False by simp
      ultimately have "(\<forall>a \<in> set (collect_citations matches available (used @ [c])).
                          first_of_its_kind available a)
                       \<and> distinct (collect_citations matches available (used @ [c]))"
        by (rule Cons.IH)
      then show ?thesis using m Some False by simp
    qed
  qed
qed

lemma collect_citations_append:
  "collect_citations (ms @ ms') available used =
     collect_citations ms' available (collect_citations ms available used)"
  by (induction ms arbitrary: used) (auto split: option.splits)

text \<open>
  C5. The extracted list holds at most one citation for each pair of document title and
  page number; and a marker that resolves to a citation whose title and page already
  occur in the list collected so far leaves that list as it is.
\<close>

theorem extracted_citations_unique_per_title_and_page:
  "distinct (map (\<lambda>c. (document_title c, page_number c))
              (extract_citations_from_text text available))
   \<and> (citation_to_use available doc_title (py_int page_str) = Some c
        \<and> (\<exists>d \<in> set (collect_citations matches available []).
              document_title d = document_title c \<and> page_number d = page_number c)
      \<longrightarrow> collect_citations (matches @ [(doc_title, page_str)]) available []
            = collect_citations matches available [])"
proof
  let ?res = "extract_citations_from_text text available"
  have inv: "(\<forall>c \<in> set ?res. first_of_its_kind available c) \<and> distinct ?res"
    unfolding extract_citations_from_text_def
    by (rule collect_citations_invariant) simp_all
  have "inj_on (\<lambda>c. (document_title c, page_number c)) (set ?res)"
  proof (rule inj_onI)
    fix x y
    assume "x \<in> set ?res" "y \<in> set ?res"
      and "(document_title x, page_number x) = (document_title y, page_number y)"
    with inv show "x = y" by (auto intro: first_of_its_kind_unique)
  qed
  with inv show "distinct (map (\<lambda>c. (document_title c, page_number c)) ?res)"
    by (simp add: distinct_map)
next
  let ?used = "collect_citations matches available []"
  show "citation_to_use available doc_title (py_int page_str) = Some c
        \<and> (\<exists>d \<in> set ?used. document_title d = document_title c \<and> page_number d = page_number c)
      \<longrightarrow> collect_citations (matches @ [(doc_title, page_str)]) available [] = ?used"
  proof
    assume a: "citation_to_use available doc_title (py_int page_str) = Some c
        \<and> (\<exists>d \<in> set ?used. document_title d = document_title c \<and> page_number d = page_number c)"
    then obtain d where d: "d \<in> set ?used" "document_title d = document_title c"
      "page_number d = page_number c" by blast
    have "first_of_its_kind available d"
      using collect_citations_invariant[of "[]" available matches] d(1) by simp
    moreover have "first_of_its_kind available c"
      using a citation_to_use_first_of_its_kind by blast
    ultimately have "c = d" using d(2,3) by (auto intro: first_of_its_kind_unique)
    with d(1) a show "collect_citations (matches @ [(doc_title, page_str)]) available [] = ?used"
      by (simp add: collect_citations_append)
  qed
qed


theorem extracted_citations_unique_per_title_and_page_witness:
  "citation_to_use
     [\<lparr>document_id = ''d1'', document_title = ''A'', page_number = 1, chunk_text = ''one'',
        chunk_id = None, relevance_score = Some 1\<rparr>,
      \<lparr>document_id = ''d2'', document_title = ''A'', page_number = 1, chunk_text = ''two'',
        chunk_id = None, relevance_score = None\<rparr>] ''a'' (py_int ''1'')
     = Some \<lparr>document_id = ''d1'', document_title = ''A'', page_number = 1,
              chunk_text = ''one'', chunk_id = None, relevance_score = Some 1\<rparr>
   \<and> collect_citations [(''A'', ''1''), (''a'', ''1'')]
       [\<lparr>document_id = ''d1'', document_title = ''A'', page_number = 1, chunk_text = ''one'',
          chunk_id = None, relevance_score = Some 1\<rparr>,
        \<lparr>document_id = ''d2'', document_title = ''A'', page_number = 1, chunk_text = ''two'',
          chunk_id = None, relevance_score = None\<rparr>] []
     = [\<lparr>document_id = ''d1'', document_title = ''A'', page_number = 1, chunk_text = ''one'',
          chunk_id = None, relevance_score = Some 1\<rparr>]"
  using extracted_citations_unique_per_title_and_page
    [of "[]"
        "[\<lparr>document_id = ''d1'', document_title = ''A'', page_number = 1, chunk_text = ''one'',
            chunk_id = None, relevance_score = Some 1\<rparr>,
          \<lparr>document_id = ''d2'', document_title = ''A'', page_number = 1, chunk_text = ''two'',
            chunk_id = None, relevance_score = None\<rparr>]"
        "''a''" "''1''"
        "\<lparr>document_id = ''d1'', document_title = ''A'', page_number = 1, chunk_text = ''one'',
           chunk_id = None, relevance_score = Some 1\<rparr>"
        "[(''A'', ''1'')]"]
  by (simp add: citation_to_use_def lower_def lower_char_def py_int_def)

text \<open>
  C6. For every marker the exact match, the first available citation with the marker's
  title (up to the case of its letters) and the marker's page, is used when there is one,
  and otherwise the first available citation with the marker's title, whatever its page.
  With a page-1 and a page-2 citation of title \<open>A\<close> available, in this order, the text
  \<open>[A, p.2]\<close> yields the page-2 citation alone, and \<open>[A, p.9]\<close> the page-1 citation.
\<close>

theorem exact_match_before_title_fallback:
  "citation_to_use available doc_title page_num =
     (case find (\<lambda>c. lower (document_title c) = lower doc_title \<and> page_number c = page_num)
             available of
        Some c \<Rightarrow> Some c
      | None \<Rightarrow> find (\<lambda>c. lower (document_title c) = lower doc_title) available)
   \<and> (document_title a1 = ''A'' \<and> page_number a1 = 1
        \<and> document_title a2 = ''A'' \<and> page_number a2 = 2
      \<longrightarrow> extract_citations_from_text ''[A, p.2]'' [a1, a2] = [a2]
          \<and> extract_citations_from_text ''[A, p.9]'' [a1, a2] = [a1])"
  by (simp add: citation_to_use_find extract_citations_from_text_def match_marker_body_def
      is_space_def is_digit_def py_int_def)

theorem exact_match_before_title_fallback_witness:
  "extract_citations_from_text ''[A, p.2]''
     [\<lparr>document_id = ''d1'', document_title = ''A'', page_number = 1, chunk_text = ''one'',
        chunk_id = None, relevance_score = None\<rparr>,
      \<lparr>document_id = ''d1'', document_title = ''A'', page_number = 2, chunk_text = ''two'',
        chunk_id = None, relevance_score = None\<rparr>]
     = [\<lparr>document_id = ''d1'', document_title = ''A'', page_number = 2, chunk_text = ''two'',
          chunk_id = None, relevance_score = None\<rparr>]
   \<and> extract_citations_from_text ''[A, p.9]''
     [\<lparr>document_id = ''d1'', document_title = ''A'', page_number = 1, chunk_text = ''one'',
        chunk_id = None, relevance_score = None\<rparr>,
      \<lparr>document_id = ''d1'', document_title = ''A'', page_number = 2, chunk_text = ''two'',
        chunk_id = None, relevance_score = None\<rparr>]
     = [\<lparr>document_id = ''d1'', document_title = ''A'', page_number = 1, chunk_text = ''one'',
          chunk_id = None, relevance_score = None\<rparr>]"
  using exact_match_before_title_fallback
    [of "[]" "[]" 0
        "\<lparr>document_id = ''d1'', document_title = ''A'', page_number = 1, chunk_text = ''one'',
           chunk_id = None, relevance_score = None\<rparr>"
        "\<lparr>document_id = ''d1'', document_title = ''A'', page_number = 2, chunk_text = ''two'',
           chunk_id = None, relevance_score = None\<rparr>"]
  by simp

section \<open>Properties of the paragraph locks\<close>

lemma fold_update_map_of:
  "map_of (fold (\<lambda>(idx, text) d. AList.update idx text d) locked d)
     = map_of d ++ map_of (rev locked)"
proof (induction locked arbitrary: d)
  case Nil
  then show ?case by simp
next
  case (Cons l locked)
  obtain k v where l: "l = (k, v)" by (cases l)
  have "map_of (fold (\<lambda>(idx, text) d. AList.update idx text d) (l # locked) d)
          = map_of (AList.update k v d) ++ map_of (rev locked)"
    using Cons.IH[of "AList.update k v d"] l by simp
  also have "\<dots> = map_of d ++ map_of (rev (l # locked))"
    by (simp add: l update_conv' map_add_upd_left fun_eq_iff map_add_def split: option.splits)
  finally show ?case .
qed

lemma locked_dict_of_map_of: "map_of (locked_dict_of locked) = map_of (rev locked)"
  by (simp add: locked_dict_of_def fold_update_map_of)

lemma fold_update_keys:
  "fst ` set (fold (\<lambda>(idx, text) d. AList.update idx text d) locked d)
     = fst ` set locked \<union> fst ` set d"
proof (induction locked arbitrary: d)
  case Nil
  then show ?case by simp
next
  case (Cons l locked)
  obtain k v where l: "l = (k, v)" by (cases l)
  show ?case using Cons.IH[of "AList.update k v d"] by (auto simp: l dom_update)
qed

lemma locked_dict_of_keys: "set (map fst (locked_dict_of locked)) = set (map fst locked)"
  by (simp add: locked_dict_of_def fold_update_keys)

lemma map_of_rev_last_lock:
  "map_of (rev locked) i =
     (case filter (\<lambda>(j, t). j = i) locked of [] \<Rightarrow> None | l # ls \<Rightarrow> Some (snd (last (l # ls))))"
proof (induction locked rule: rev_induct)
  case Nil
  then show ?case by simp
next
  case (snoc x xs)
  obtain k v where x: "x = (k, v)" by (cases x)
  show ?case
  proof (cases "k = i")
    case True
    obtain l ls where f: "filter (\<lambda>(j, t). j = i) (xs @ [x]) = l # ls"
      using True x by (cases "filter (\<lambda>(j, t). j = i) (xs @ [x])") auto
    have "filter (\<lambda>(j, t). j = i) (xs @ [x]) = filter (\<lambda>(j, t). j = i) xs @ [(k, v)]"
      using True x by simp
    with f have "last (l # ls) = (k, v)" by (metis last_snoc)
    with f True x show ?thesis by simp
  next
    case False
    then show ?thesis using snoc by (simp add: x)
  qed
qed

lemma py_max_default_Max: "xs \<noteq> [] \<Longrightarrow> py_max_default xs d = Max (set xs)"
proof (cases xs)
  case Nil
  assume "xs \<noteq> []"
  with Nil show ?thesis by simp
next
  case (Cons y ys)
  have "fold max ys y = Max (set (y # ys))" by (rule Max.set_eq_fold[symmetric])
  with Cons show ?thesis by (simp add: py_max_default_def)
qed

lemma merge_positions_concat:
  "merge_positions locked_dict new_paragraphs positions merged =
     merged @ concat (map (\<lambda>i. case map_of locked_dict i of
                                   Some t \<Rightarrow> [t]
                                 | None \<Rightarrow> if i < int (length new_paragraphs)
                                           then [new_paragraphs ! nat i] else []) positions)"
  by (induction positions arbitrary: merged) (simp_all split: option.splits)

lemma spec_emit_map_of:
  "spec_emit new_paragraphs locked =
     (\<lambda>i. case map_of (rev locked) i of
        Some t \<Rightarrow> [t]
      | None \<Rightarrow> if i < int (length new_paragraphs) then [new_paragraphs ! nat i] else [])"
  by (rule ext) (simp add: spec_emit_def map_of_rev_last_lock split: list.splits)

lemma merge_refines_spec_locked:
  assumes "locked \<noteq> []"
  shows "merge_paragraphs_with_locks new_text locked = spec_merge new_text locked"
proof -
  have keys: "map fst (locked_dict_of locked) \<noteq> []"
    using locked_dict_of_keys[of locked] assms by (cases locked) auto
  have "py_max_default (map fst (locked_dict_of locked)) (- 1) = Max (set (map fst locked))"
    using py_max_default_Max[OF keys] locked_dict_of_keys[of locked] by simp
  moreover have "max (int n - 1) m = max (int n) (1 + m) - 1" for n m by simp
  ultimately show ?thesis
    using assms
    by (simp add: merge_paragraphs_with_locks_def spec_merge_def Let_def
        merge_positions_concat locked_dict_of_map_of spec_emit_map_of del: set_map)
qed

lemma concat_all_positions:
  "concat (map (\<lambda>i. if i < int (length ps) then [ps ! nat i] else []) [0..int (length ps) - 1]) = ps"
proof -
  have eq: "map (\<lambda>i. if i < int (length ps) then [ps ! nat i] else []) [0..int (length ps) - 1]
          = map (\<lambda>i. [ps ! nat i]) [0..int (length ps) - 1]"
    by (rule map_cong) auto
  have "concat (map (\<lambda>i. if i < int (length ps) then [ps ! nat i] else [])
                       [0..int (length ps) - 1])
               = map (\<lambda>i. ps ! nat i) [0..int (length ps) - 1]"
    by (subst eq) (rule concat_map_singleton)
  also have "\<dots> = ps"
    by (rule nth_equalityI) simp_all
  finally show ?thesis .
qed

lemma spec_merge_no_locks:
  "spec_merge new_text [] = py_join ''\<newline>\<newline>'' (split_into_paragraphs new_text)"
proof -
  have "spec_emit ps [] = (\<lambda>i. if i < int (length ps) then [ps ! nat i] else [])" for ps
    by (rule ext) (simp add: spec_emit_def)
  then show ?thesis by (simp add: spec_merge_def Let_def concat_all_positions)
qed

text \<open>
  C7. The claim: for every new text and every list of locks, the merge is the merge of
  the specification. With no lock the code returns the new text as it is, while the
  specification joins its trimmed paragraphs: on the text \<open>" a"\<close> the code returns
  \<open>" a"\<close> and the specification \<open>"a"\<close>.
\<close>

theorem merge_without_locks_counterexample:
  "merge_paragraphs_with_locks '' a'' [] = '' a'' \<and> spec_merge '' a'' [] = ''a''
   \<and> merge_paragraphs_with_locks '' a'' [] \<noteq> spec_merge '' a'' []"
  by (simp add: merge_paragraphs_with_locks_def spec_merge_def spec_emit_def
      split_into_paragraphs_def split_scan.simps strip_def is_space_def)

text \<open>
  C7, as amended: the merge is the merge of the specification for every new text and
  every non-empty list of locks, and with no lock exactly when the new text is already
  the blank-line join of its paragraphs. Merging the paragraphs Q0, Q1, Q2 with the
  single lock of index 1 and text Locked-P1 yields Q0, Locked-P1, Q2.
\<close>

theorem merge_refines_spec:
  "(merge_paragraphs_with_locks new_text locked = spec_merge new_text locked
      \<longleftrightarrow> locked \<noteq> []
          \<or> py_join ''\<newline>\<newline>'' (split_into_paragraphs new_text) = new_text)
   \<and> merge_paragraphs_with_locks ''Q0\<newline>\<newline>Q1\<newline>\<newline>Q2'' [(1, ''Locked-P1'')]
       = ''Q0\<newline>\<newline>Locked-P1\<newline>\<newline>Q2''"
proof
  show "merge_paragraphs_with_locks new_text locked = spec_merge new_text locked
          \<longleftrightarrow> locked \<noteq> []
              \<or> py_join ''\<newline>\<newline>'' (split_into_paragraphs new_text) = new_text"
  proof (cases "locked = []")
    case True
    then show ?thesis
      by (auto simp: spec_merge_no_locks merge_paragraphs_with_locks_def)
  next
    case False
    then show ?thesis by (simp add: merge_refines_spec_locked)
  qed
next
  show "merge_paragraphs_with_locks ''Q0\<newline>\<newline>Q1\<newline>\<newline>Q2'' [(1, ''Locked-P1'')]
          = ''Q0\<newline>\<newline>Locked-P1\<newline>\<newline>Q2''"
    by (simp add: merge_paragraphs_with_locks_def split_into_paragraphs_def split_scan.simps
        strip_def is_space_def locked_dict_of_def py_max_default_def upto.simps)
qed

theorem merge_refines_spec_witness:
  "[(5, ''L5''), (5, ''M5''), (- 2, ''neg'')] \<noteq> []
   \<and> merge_paragraphs_with_locks ''Q0\<newline>\<newline>Q1''
         [(5, ''L5''), (5, ''M5''), (- 2, ''neg'')]
       = spec_merge ''Q0\<newline>\<newline>Q1'' [(5, ''L5''), (5, ''M5''), (- 2, ''neg'')]
   \<and> merge_paragraphs_with_locks ''Q0\<newline>\<newline>Q1''
         [(5, ''L5''), (5, ''M5''), (- 2, ''neg'')]
       = ''Q0\<newline>\<newline>Q1\<newline>\<newline>M5''"
proof -
  have "merge_paragraphs_with_locks ''Q0\<newline>\<newline>Q1''
          [(5, ''L5''), (5, ''M5''), (- 2, ''neg'')]
        = spec_merge ''Q0\<newline>\<newline>Q1'' [(5, ''L5''), (5, ''M5''), (- 2, ''neg'')]"
    using merge_refines_spec
      [of "''Q0\<newline>\<newline>Q1''" "[(5, ''L5''), (5, ''M5''), (- 2, ''neg'')]"]
    by simp
  moreover have "merge_paragraphs_with_locks ''Q0\<newline>\<newline>Q1''
          [(5, ''L5''), (5, ''M5''), (- 2, ''neg'')]
        = ''Q0\<newline>\<newline>Q1\<newline>\<newline>M5''"
    by (simp add: merge_paragraphs_with_locks_def split_into_paragraphs_def split_scan.simps
        strip_def is_space_def locked_dict_of_def py_max_default_def upto.simps)
  ultimately show ?thesis by simp
qed

text \<open>
  C10. With no locked paragraph the merge returns the new text unchanged, in
  \<open>merge_paragraphs_with_locks\<close> and in \<open>GeneratedSection.merge_with_locked_paragraphs\<close>.
\<close>

theorem merge_without_locks_is_identity:
  "merge_paragraphs_with_locks new_text [] = new_text
   \<and> merge_with_locked_paragraphs (self\<lparr>locked_paragraphs := []\<rparr>) new_text = new_text"
  by (simp add: merge_paragraphs_with_locks_def merge_with_locked_paragraphs_def)

section \<open>Properties of the lock update\<close>

lemma citation_responses_with_scores:
  "\<forall>c \<in> set cs. relevance_score c \<noteq> None \<Longrightarrow> \<exists>rs. citation_responses cs = Inr rs"
  by (induction cs) auto

lemma citation_responses_status: "citation_responses cs = Inl e \<Longrightarrow> e = HTTP_500"
  by (induction cs) (auto split: option.splits sum.splits)

text \<open>
  C8. For a section that exists, \<open>update_section\<close> stores as locked exactly the requested
  indices \<open>idx\<close> with \<open>0 \<le> idx < len(split_into_paragraphs(text))\<close>, in the order of the
  request, each with the text of that paragraph; an index out of range is left out and
  is never the reason of a failure (the call does not answer 404, and it answers 500 only
  for a stored citation without relevance score); the response lists the indices kept.
\<close>

theorem update_section_keeps_valid_locks:
  fixes request :: update_section_request
  defines "paragraphs \<equiv> split_into_paragraphs (req_text request)"
  defines "valid \<equiv> filter (\<lambda>idx. 0 \<le> idx \<and> idx < int (length paragraphs))
                          (locked_paragraph_indices request)"
  assumes "generated_sections sid = Some sections"
    and "sections section_name = Some sdata"
  shows "fst (update_section generated_sections sid section_name request)
           = generated_sections(sid \<mapsto> sections(section_name \<mapsto>
               sdata\<lparr>sd_text := req_text request,
                        sd_locked_paragraphs := valid,
                        sd_locked_paragraphs_data := map (\<lambda>idx. (idx, paragraphs ! nat idx)) valid,
                        sd_word_count := count_words (req_text request)\<rparr>))
         \<and> set valid = {idx \<in> set (locked_paragraph_indices request).
                            0 \<le> idx \<and> nat idx < length paragraphs}
         \<and> snd (update_section generated_sections sid section_name request) \<noteq> Inl HTTP_404
         \<and> ((\<forall>c \<in> set (sd_citations sdata). relevance_score c \<noteq> None)
              \<longrightarrow> (\<exists>resp. snd (update_section generated_sections sid section_name request)
                              = Inr resp
                          \<and> resp_locked_paragraphs resp = valid
                          \<and> resp_text resp = req_text request))"
proof (intro conjI impI)
  show "fst (update_section generated_sections sid section_name request)
           = generated_sections(sid \<mapsto> sections(section_name \<mapsto>
               sdata\<lparr>sd_text := req_text request,
                        sd_locked_paragraphs := valid,
                        sd_locked_paragraphs_data := map (\<lambda>idx. (idx, paragraphs ! nat idx)) valid,
                        sd_word_count := count_words (req_text request)\<rparr>))"
    using assms by (simp add: update_section_def Let_def)
next
  show "set valid = {idx \<in> set (locked_paragraph_indices request).
                       0 \<le> idx \<and> nat idx < length paragraphs}"
    unfolding valid_def by auto
next
  show "snd (update_section generated_sections sid section_name request) \<noteq> Inl HTTP_404"
    using assms(3,4)
    by (cases "citation_responses (sd_citations sdata)")
       (auto simp: update_section_def Let_def dest: citation_responses_status)
next
  assume "\<forall>c \<in> set (sd_citations sdata). relevance_score c \<noteq> None"
  then obtain rs where "citation_responses (sd_citations sdata) = Inr rs"
    using citation_responses_with_scores by blast
  then show "\<exists>resp. snd (update_section generated_sections sid section_name request) = Inr resp
               \<and> resp_locked_paragraphs resp = valid \<and> resp_text resp = req_text request"
    using assms by (simp add: update_section_def Let_def)
qed

theorem update_section_keeps_valid_locks_witness:
  "map_sum id resp_locked_paragraphs (snd (update_section
      [''s1'' \<mapsto> [''Intro'' \<mapsto> \<lparr>sd_section_id = ''id'', sd_section_name = ''Intro'', sd_text = ''old'', sd_word_count = 1,
        sd_citations = [], sd_warning = None, sd_locked_paragraphs = [],
        sd_locked_paragraphs_data = [], sd_generated_at = ''t0''\<rparr>]]
      ''s1'' ''Intro''
      \<lparr>req_text = ''P0\<newline>\<newline>P1\<newline>\<newline>P2'',
        locked_paragraph_indices = [1, 5, - 1, 0]\<rparr>))
     = Inr [1, 0]
   \<and> map_option sd_locked_paragraphs_data
       (Option.bind (fst (update_section
      [''s1'' \<mapsto> [''Intro'' \<mapsto> \<lparr>sd_section_id = ''id'', sd_section_name = ''Intro'', sd_text = ''old'', sd_word_count = 1,
        sd_citations = [], sd_warning = None, sd_locked_paragraphs = [],
        sd_locked_paragraphs_data = [], sd_generated_at = ''t0''\<rparr>]]
      ''s1'' ''Intro''
      \<lparr>req_text = ''P0\<newline>\<newline>P1\<newline>\<newline>P2'',
        locked_paragraph_indices = [1, 5, - 1, 0]\<rparr>) ''s1'') (\<lambda>sections. sections ''Intro''))
     = Some [(1, ''P1''), (0, ''P0'')]"
proof -
  have stored: "[''s1'' \<mapsto> [''Intro'' \<mapsto> \<lparr>sd_section_id = ''id'', sd_section_name = ''Intro'', sd_text = ''old'', sd_word_count = 1,
        sd_citations = [], sd_warning = None, sd_locked_paragraphs = [],
        sd_locked_paragraphs_data = [], sd_generated_at = ''t0''\<rparr>]] ''s1''
      = Some [''Intro'' \<mapsto> \<lparr>sd_section_id = ''id'', sd_section_name = ''Intro'', sd_text = ''old'', sd_word_count = 1,
        sd_citations = [], sd_warning = None, sd_locked_paragraphs = [],
        sd_locked_paragraphs_data = [], sd_generated_at = ''t0''\<rparr>]"
    by simp
  have entry: "[''Intro'' \<mapsto> \<lparr>sd_section_id = ''id'', sd_section_name = ''Intro'', sd_text = ''old'', sd_word_count = 1,
        sd_citations = [], sd_warning = None, sd_locked_paragraphs = [],
        sd_locked_paragraphs_data = [], sd_generated_at = ''t0''\<rparr>] ''Intro''
      = Some \<lparr>sd_section_id = ''id'', sd_section_name = ''Intro'', sd_text = ''old'', sd_word_count = 1,
        sd_citations = [], sd_warning = None, sd_locked_paragraphs = [],
        sd_locked_paragraphs_data = [], sd_generated_at = ''t0''\<rparr>"
    by simp
  have paragraphs: "split_into_paragraphs ''P0\<newline>\<newline>P1\<newline>\<newline>P2'' = [''P0'', ''P1'', ''P2'']"
    by (simp add: split_into_paragraphs_def split_scan.simps strip_def is_space_def)
  show ?thesis
    using stored entry
      update_section_keeps_valid_locks
        [where generated_sections = "[''s1'' \<mapsto> [''Intro'' \<mapsto> \<lparr>sd_section_id = ''id'', sd_section_name = ''Intro'', sd_text = ''old'', sd_word_count = 1,
        sd_citations = [], sd_warning = None, sd_locked_paragraphs = [],
        sd_locked_paragraphs_data = [], sd_generated_at = ''t0''\<rparr>]]"
           and sid = "''s1''"
           and sections = "[''Intro'' \<mapsto> \<lparr>sd_section_id = ''id'', sd_section_name = ''Intro'', sd_text = ''old'', sd_word_count = 1,
        sd_citations = [], sd_warning = None, sd_locked_paragraphs = [],
        sd_locked_paragraphs_data = [], sd_generated_at = ''t0''\<rparr>]"
           and section_name = "''Intro''"
           and sdata = "\<lparr>sd_section_id = ''id'', sd_section_name = ''Intro'', sd_text = ''old'', sd_word_count = 1,
        sd_citations = [], sd_warning = None, sd_locked_paragraphs = [],
        sd_locked_paragraphs_data = [], sd_generated_at = ''t0''\<rparr>"
           and request = "\<lparr>req_text = ''P0\<newline>\<newline>P1\<newline>\<newline>P2'',
        locked_paragraph_indices = [1, 5, - 1, 0]\<rparr>"]
    by (auto simp: paragraphs)
qed

end
